theory Spec2Isabelle
  imports Main "HOL-Library.Word"
begin

section \<open>The schema model\<close>

text \<open>
  The later of the two schema designs of the repository (the file with \<^verbatim>\<open>encode\<close> and
  \<^verbatim>\<open>decode\<close>). A schema node is a JavaScript object stamped with the symbol key
  \<^verbatim>\<open>TYPE_KIND\<close>; the codec dispatches on that stamp only, so a node is a value of a
  datatype with one constructor per kind. A struct and an enum carry their properties in
  the order the schema's author wrote them; the order in which JavaScript enumerates them
  is computed by \<open>own_keys\<close> below. An enum variant is its payload schema stamped with the
  discriminant (\<^verbatim>\<open>SYMBOL_EXPR\<close>): here a triple of name, discriminant and payload.
  The names of one struct or enum are distinct, as the keys of an object are; an array
  size, a discriminant and an offset are natural numbers.
\<close>

datatype Type =
    Unit
  | u8 | u16 | u32 | u64 | u128
  | i8 | i16 | i32 | i64 | i128
  | f16 | f32 | f64 | f128
  | bool
  | String
  | Tuple "Type list"
  | Array Type nat
  | Struct "(string \<times> Type) list"
  | Enum "(string \<times> nat \<times> Type) list"
  | Collection Type

datatype Endian = big | little

datatype IntEncoding = variant | fixed

record BincodeConfig =
  endian :: Endian
  int_encoding :: IntEncoding
  limit :: "nat option"

definition STANDARD :: BincodeConfig where
  "STANDARD = \<lparr>endian = little, int_encoding = fixed, limit = None\<rparr>"

section \<open>Values, buffers and outcomes\<close>

text \<open>
  A runtime value of the shape \<^verbatim>\<open>Value<T>\<close>: \<open>VObject []\<close> is the empty object
  \<^verbatim>\<open>{}\<close> of the unit schema, \<open>VNumber\<close> a number with an integer value, \<open>VFloat\<close>
  any other number (a fraction, an infinity, \<^verbatim>\<open>NaN\<close>) kept as its binary64 encoding,
  \<open>VBigInt\<close> a bigint, \<open>EnumVariantValue\<close> the object built by the function of that
  name. \<open>VUndefined\<close> is what indexing past the end of an array, or reading a missing
  property, yields inside the codec.
\<close>

datatype Value =
    VUndefined
  | VNumber int
  | VFloat "64 word"
  | VBigInt int
  | VBoolean bool
  | VString string
  | VArray "Value list"
  | VObject "(string \<times> Value) list"
  | EnumVariantValue string Value

type_synonym byte = "8 word"

text \<open>An \<^verbatim>\<open>ArrayBuffer\<close>: a byte sequence of fixed length.\<close>

type_synonym buffer = "byte list"

text \<open>
  What a call can end with instead of returning. \<open>RangeError\<close> and \<open>TypeError\<close> are the
  exceptions of the \<^verbatim>\<open>DataView\<close>, the typed arrays and the language itself; \<open>Thrown\<close>
  is a \<^verbatim>\<open>throw\<close> of the source, with its string. \<open>NotModelled\<close> is no outcome of the
  program: it marks an input on which this development does not follow JavaScript (the
  coercion of a value of a kind other than the accessor expects or \<open>undefined\<close>, such as
  a string where a number is expected).
\<close>

datatype error = RangeError | TypeError | Thrown string | NotModelled

text \<open>
  What the codec takes as given. \<^verbatim>\<open>TextEncoder.encode\<close> and \<^verbatim>\<open>TextDecoder.decode\<close>
  are the host's. The IEEE-754 conversions behind \<^verbatim>\<open>setFloat32\<close>, \<^verbatim>\<open>setFloat64\<close>,
  \<^verbatim>\<open>getFloat32\<close> and \<^verbatim>\<open>getFloat64\<close> are not spelt out either: \<open>float32_bits\<close> and
  \<open>float64_bits\<close> stand for \<^verbatim>\<open>ToNumber\<close> followed by the rounding to the format (or the
  exception of \<^verbatim>\<open>ToNumber\<close>), \<open>float32_value\<close> and \<open>float64_value\<close> for the number a
  bit pattern denotes. Every theorem below holds whatever these functions are.
\<close>

record platform =
  text_encode :: "string \<Rightarrow> byte list"
  text_decode :: "byte list \<Rightarrow> string"
  float32_bits :: "Value \<Rightarrow> error + 32 word"
  float64_bits :: "Value \<Rightarrow> error + 64 word"
  float32_value :: "32 word \<Rightarrow> Value"
  float64_value :: "64 word \<Rightarrow> Value"

subsection \<open>Property enumeration order\<close>

text \<open>
  \<^verbatim>\<open>for (const field in structType)\<close> and \<^verbatim>\<open>Object.keys(type)\<close> visit the string
  keys of an object in the order of the language: the keys that are array indices (the
  canonical decimal numerals below \<open>2^32 - 1\<close>) in ascending numeric order, then the other
  keys in the order they were created. Symbol keys (the kind stamp) are not visited.
\<close>

definition is_digit :: "char \<Rightarrow> bool" where
  "is_digit c = (48 \<le> (of_char c :: nat) \<and> (of_char c :: nat) \<le> 57)"

fun decimal_acc :: "nat \<Rightarrow> string \<Rightarrow> nat" where
  "decimal_acc acc [] = acc"
| "decimal_acc acc (c # cs) = decimal_acc (10 * acc + (of_char c - 48)) cs"

definition decimal :: "string \<Rightarrow> nat" where
  "decimal k = decimal_acc 0 k"

definition is_array_index :: "string \<Rightarrow> bool" where
  "is_array_index k =
     (k \<noteq> [] \<and> list_all is_digit k \<and> \<not> (hd k = CHR ''0'' \<and> 1 < length k)
      \<and> decimal k < 2 ^ 32 - 1)"

definition own_keys :: "(string \<times> 'a) list \<Rightarrow> (string \<times> 'a) list" where
  "own_keys props =
     sort_key (\<lambda>p. decimal (fst p)) (filter (\<lambda>p. is_array_index (fst p)) props)
     @ filter (\<lambda>p. \<not> is_array_index (fst p)) props"

subsection \<open>Reading a value\<close>

text \<open>\<^verbatim>\<open>value[index]\<close> with a numeric index.\<close>

fun index_value :: "Value \<Rightarrow> nat \<Rightarrow> error + Value" where
  "index_value (VArray vs) i = Inr (if i < length vs then vs ! i else VUndefined)"
| "index_value VUndefined i = Inl TypeError"
| "index_value (VNumber n) i = Inr VUndefined"
| "index_value (VFloat w) i = Inr VUndefined"
| "index_value (VBigInt n) i = Inr VUndefined"
| "index_value (VBoolean b) i = Inr VUndefined"
| "index_value (EnumVariantValue k v) i = Inr VUndefined"
| "index_value (VString s) i = Inl NotModelled"
| "index_value (VObject kvs) i = Inl NotModelled"

text \<open>
  The string keys every plain object inherits from \<^verbatim>\<open>Object.prototype\<close>. Reading one
  of them from an object that has no own property of that name yields the inherited
  member (a function, or the prototype itself for \<^verbatim>\<open>__proto__\<close>), which is no value of
  the model.
\<close>

definition inherited_names :: "string list" where
  "inherited_names =
     [''constructor'', ''hasOwnProperty'', ''isPrototypeOf'', ''propertyIsEnumerable'',
      ''toLocaleString'', ''toString'', ''valueOf'', ''__proto__'', ''__defineGetter__'',
      ''__defineSetter__'', ''__lookupGetter__'', ''__lookupSetter__'']"

definition missing_property :: "string \<Rightarrow> error + Value" where
  "missing_property k = (if k \<in> set inherited_names then Inl NotModelled else Inr VUndefined)"

text \<open>
  \<^verbatim>\<open>structValue[field]\<close>: the own property of that name; \<^verbatim>\<open>undefined\<close> when the
  object has none and inherits none.
\<close>

fun property_value :: "Value \<Rightarrow> string \<Rightarrow> error + Value" where
  "property_value (VObject kvs) k =
     (case map_of kvs k of None \<Rightarrow> missing_property k | Some v \<Rightarrow> Inr v)"
| "property_value VUndefined k = Inl TypeError"
| "property_value (EnumVariantValue n v) k = missing_property k"
| "property_value v k = Inl NotModelled"

text \<open>
  \<^verbatim>\<open>ToNumber\<close> and the truncation to an integer, for the integer setters of the
  \<^verbatim>\<open>DataView\<close>: \<^verbatim>\<open>undefined\<close> is \<^verbatim>\<open>NaN\<close>, which is stored as 0.
\<close>

fun ToNumber :: "Value \<Rightarrow> error + int" where
  "ToNumber (VNumber n) = Inr n"
| "ToNumber (VBoolean b) = Inr (if b then 1 else 0)"
| "ToNumber VUndefined = Inr 0"
| "ToNumber (VBigInt n) = Inl TypeError"
| "ToNumber v = Inl NotModelled"

text \<open>\<^verbatim>\<open>ToBigInt\<close>, for the 64-bit setters.\<close>

fun ToBigInt :: "Value \<Rightarrow> error + int" where
  "ToBigInt (VBigInt n) = Inr n"
| "ToBigInt (VBoolean b) = Inr (if b then 1 else 0)"
| "ToBigInt (VNumber n) = Inl TypeError"
| "ToBigInt (VFloat w) = Inl TypeError"
| "ToBigInt VUndefined = Inl TypeError"
| "ToBigInt v = Inl NotModelled"

text \<open>
  The argument of \<^verbatim>\<open>encoder.encode(value)\<close>: the bytes of a string; \<^verbatim>\<open>undefined\<close>
  stands for the parameter's default, the empty string.
\<close>

fun encode_text :: "platform \<Rightarrow> Value \<Rightarrow> error + byte list" where
  "encode_text P (VString s) = Inr (text_encode P s)"
| "encode_text P VUndefined = Inr []"
| "encode_text P v = Inl NotModelled"

subsection \<open>The DataView\<close>

text \<open>The \<open>n\<close> low bytes of a natural number, least significant first, and back.\<close>

fun le_bytes :: "nat \<Rightarrow> nat \<Rightarrow> byte list" where
  "le_bytes 0 x = []"
| "le_bytes (Suc n) x = of_nat (x mod 256) # le_bytes n (x div 256)"

fun le_nat :: "byte list \<Rightarrow> nat" where
  "le_nat [] = 0"
| "le_nat (b # bs) = unat b + 256 * le_nat bs"

definition byte_order :: "bool \<Rightarrow> byte list \<Rightarrow> byte list" where
  "byte_order littleEndian bs = (if littleEndian then bs else rev bs)"

text \<open>A write or a read that does not fit the buffer is a \<open>RangeError\<close>.\<close>

definition set_bytes :: "buffer \<Rightarrow> nat \<Rightarrow> byte list \<Rightarrow> error + buffer" where
  "set_bytes buf off bs =
     (if off + length bs \<le> length buf
      then Inr (take off buf @ bs @ drop (off + length bs) buf)
      else Inl RangeError)"

definition get_bytes :: "buffer \<Rightarrow> nat \<Rightarrow> nat \<Rightarrow> error + byte list" where
  "get_bytes buf off n =
     (if off + n \<le> length buf then Inr (take n (drop off buf)) else Inl RangeError)"

text \<open>
  \<^verbatim>\<open>setUint8\<close> ... \<^verbatim>\<open>setInt32\<close> (width \<open>n\<close> bytes): the value is converted first, then
  the range is checked, then the value is stored modulo \<open>2^(8n)\<close>, in two's complement.
  The result is the buffer and the offset after the \<^verbatim>\<open>offset += n\<close> that follows each
  call in the source.
\<close>

definition store :: "bool \<Rightarrow> nat \<Rightarrow> int \<Rightarrow> buffer \<Rightarrow> nat \<Rightarrow> error + buffer \<times> nat" where
  "store littleEndian n x buf off =
     (case set_bytes buf off (byte_order littleEndian (le_bytes n (nat (x mod 256 ^ n)))) of
        Inl e \<Rightarrow> Inl e
      | Inr buf' \<Rightarrow> Inr (buf', off + n))"

definition setInteger :: "bool \<Rightarrow> nat \<Rightarrow> Value \<Rightarrow> buffer \<Rightarrow> nat \<Rightarrow> error + buffer \<times> nat" where
  "setInteger littleEndian n v buf off =
     (case ToNumber v of Inl e \<Rightarrow> Inl e | Inr x \<Rightarrow> store littleEndian n x buf off)"

definition setBigInteger :: "bool \<Rightarrow> Value \<Rightarrow> buffer \<Rightarrow> nat \<Rightarrow> error + buffer \<times> nat" where
  "setBigInteger littleEndian v buf off =
     (case ToBigInt v of Inl e \<Rightarrow> Inl e | Inr x \<Rightarrow> store littleEndian 8 x buf off)"

text \<open>\<^verbatim>\<open>setFloat32\<close> and \<^verbatim>\<open>setFloat64\<close>: the bytes of the bit pattern.\<close>

definition setFloat32 ::
  "platform \<Rightarrow> bool \<Rightarrow> Value \<Rightarrow> buffer \<Rightarrow> nat \<Rightarrow> error + buffer \<times> nat" where
  "setFloat32 P littleEndian v buf off =
     (case float32_bits P v of
        Inl e \<Rightarrow> Inl e | Inr w \<Rightarrow> store littleEndian 4 (uint w) buf off)"

definition setFloat64 ::
  "platform \<Rightarrow> bool \<Rightarrow> Value \<Rightarrow> buffer \<Rightarrow> nat \<Rightarrow> error + buffer \<times> nat" where
  "setFloat64 P littleEndian v buf off =
     (case float64_bits P v of
        Inl e \<Rightarrow> Inl e | Inr w \<Rightarrow> store littleEndian 8 (uint w) buf off)"

text \<open>\<^verbatim>\<open>getUint8\<close> ... \<^verbatim>\<open>getBigUint64\<close> and the signed getters, with the offset after the read.\<close>

definition getUint :: "bool \<Rightarrow> nat \<Rightarrow> buffer \<Rightarrow> nat \<Rightarrow> error + int \<times> nat" where
  "getUint littleEndian n buf off =
     (case get_bytes buf off n of
        Inl e \<Rightarrow> Inl e
      | Inr bs \<Rightarrow> Inr (int (le_nat (byte_order littleEndian bs)), off + n))"

definition getInt :: "bool \<Rightarrow> nat \<Rightarrow> buffer \<Rightarrow> nat \<Rightarrow> error + int \<times> nat" where
  "getInt littleEndian n buf off =
     (case getUint littleEndian n buf off of
        Inl e \<Rightarrow> Inl e
      | Inr (x, off') \<Rightarrow> Inr (if x < 2 ^ (8 * n - 1) then x else x - 2 ^ (8 * n), off'))"

section \<open>The encoder\<close>

text \<open>
  \<open>encode P config type value buffer offset\<close> is the buffer after the writes and the
  returned offset, or the exception. The loops of the source are the functions
  \<open>encode_tuple\<close> (index \<open>i\<close> upwards over the rest of the tuple schema), \<open>encode_array\<close>
  (\<open>k\<close> elements from index \<open>i\<close>), \<open>encode_struct\<close> (the enumerated fields) and
  \<open>encode_collection\<close> (the elements of the value). A conversion of the value that
  throws does so before the range of the write is checked; an exception ends the call,
  whatever was written before it.
\<close>

text \<open>\<^verbatim>\<open>enumType[name]\<close>: the variant of that name, with its discriminant.\<close>

fun lookup_variant :: "(string \<times> nat \<times> Type) list \<Rightarrow> string \<Rightarrow> (nat \<times> Type) option" where
  "lookup_variant [] name = None"
| "lookup_variant ((k, d, t) # vs) name = (if k = name then Some (d, t) else lookup_variant vs name)"

function (sequential)
  encode :: "platform \<Rightarrow> BincodeConfig \<Rightarrow> Type \<Rightarrow> Value \<Rightarrow> buffer \<Rightarrow> nat \<Rightarrow> error + buffer \<times> nat"
  and encode_tuple ::
    "platform \<Rightarrow> BincodeConfig \<Rightarrow> Type list \<Rightarrow> nat \<Rightarrow> Value \<Rightarrow> buffer \<Rightarrow> nat \<Rightarrow> error + buffer \<times> nat"
  and encode_array ::
    "platform \<Rightarrow> BincodeConfig \<Rightarrow> Type \<Rightarrow> nat \<Rightarrow> nat \<Rightarrow> Value \<Rightarrow> buffer \<Rightarrow> nat \<Rightarrow> error + buffer \<times> nat"
  and encode_struct ::
    "platform \<Rightarrow> BincodeConfig \<Rightarrow> (string \<times> Type) list \<Rightarrow> Value \<Rightarrow> buffer \<Rightarrow> nat \<Rightarrow> error + buffer \<times> nat"
  and encode_collection ::
    "platform \<Rightarrow> BincodeConfig \<Rightarrow> Type \<Rightarrow> Value list \<Rightarrow> buffer \<Rightarrow> nat \<Rightarrow> error + buffer \<times> nat"
where
  "encode P c Unit v buf off = Inr (buf, off)"
| "encode P c u8 v buf off = setInteger (endian c = little) 1 v buf off"
| "encode P c u16 v buf off = setInteger (endian c = little) 2 v buf off"
| "encode P c u32 v buf off = setInteger (endian c = little) 4 v buf off"
| "encode P c u64 v buf off = setBigInteger (endian c = little) v buf off"
| "encode P c u128 v buf off = Inl (Thrown ''unimplemented'')"
| "encode P c i8 v buf off = setInteger (endian c = little) 1 v buf off"
| "encode P c i16 v buf off = setInteger (endian c = little) 2 v buf off"
| "encode P c i32 v buf off = setInteger (endian c = little) 4 v buf off"
| "encode P c i64 v buf off = setBigInteger (endian c = little) v buf off"
| "encode P c i128 v buf off = Inl (Thrown ''unimplemented'')"
| "encode P c f16 v buf off = Inl (Thrown ''unimplemented'')"
| "encode P c f32 v buf off = setFloat32 P (endian c = little) v buf off"
| "encode P c f64 v buf off = setFloat64 P (endian c = little) v buf off"
| "encode P c f128 v buf off = Inl (Thrown ''unimplemented'')"
| "encode P c bool v buf off = setInteger (endian c = little) 1 v buf off"
| "encode P c String v buf off =
     (case encode_text P v of
        Inl e \<Rightarrow> Inl e
      | Inr encoded \<Rightarrow>
          (case store (endian c = little) 8 (int (length encoded)) buf off of
             Inl e \<Rightarrow> Inl e
           | Inr (buf1, off1) \<Rightarrow>
               (case set_bytes buf1 off1 encoded of
                  Inl e \<Rightarrow> Inl e
                | Inr buf2 \<Rightarrow> Inr (buf2, off1 + length encoded))))"
| "encode P c (Tuple [t]) v buf off = encode P c t v buf off"
| "encode P c (Tuple ts) v buf off = encode_tuple P c ts 0 v buf off"
| "encode P c (Array t n) v buf off = encode_array P c t n 0 v buf off"
| "encode P c (Struct fs) v buf off = encode_struct P c (own_keys fs) v buf off"
| "encode P c (Enum vs) VUndefined buf off = Inl TypeError"
| "encode P c (Enum vs) (EnumVariantValue name x) buf off =
     (case lookup_variant vs name of
        None \<Rightarrow> Inl (if name \<in> set inherited_names then NotModelled else TypeError)
      | Some (variantIndex, t) \<Rightarrow>
          (case store (endian c = little) 4 (int variantIndex) buf off of
             Inl e \<Rightarrow> Inl e
           | Inr (buf1, off1) \<Rightarrow> encode P c t x buf1 off1))"
| "encode P c (Enum vs) v buf off = Inl NotModelled"
| "encode P c (Collection t) VUndefined buf off = Inl TypeError"
| "encode P c (Collection t) (VArray xs) buf off =
     (case store (endian c = little) 8 (int (length xs)) buf off of
        Inl e \<Rightarrow> Inl e
      | Inr (buf1, off1) \<Rightarrow> encode_collection P c t xs buf1 off1)"
| "encode P c (Collection t) v buf off = Inl NotModelled"
| "encode_tuple P c [] i v buf off = Inr (buf, off)"
| "encode_tuple P c (t # ts) i v buf off =
     (case index_value v i of
        Inl e \<Rightarrow> Inl e
      | Inr x \<Rightarrow>
          (case encode P c t x buf off of
             Inl e \<Rightarrow> Inl e
           | Inr (buf1, off1) \<Rightarrow> encode_tuple P c ts (Suc i) v buf1 off1))"
| "encode_array P c t 0 i v buf off = Inr (buf, off)"
| "encode_array P c t (Suc k) i v buf off =
     (case index_value v i of
        Inl e \<Rightarrow> Inl e
      | Inr x \<Rightarrow>
          (case encode P c t x buf off of
             Inl e \<Rightarrow> Inl e
           | Inr (buf1, off1) \<Rightarrow> encode_array P c t k (Suc i) v buf1 off1))"
| "encode_struct P c [] v buf off = Inr (buf, off)"
| "encode_struct P c ((field, t) # fs) v buf off =
     (case property_value v field of
        Inl e \<Rightarrow> Inl e
      | Inr x \<Rightarrow>
          (case encode P c t x buf off of
             Inl e \<Rightarrow> Inl e
           | Inr (buf1, off1) \<Rightarrow> encode_struct P c fs v buf1 off1))"
| "encode_collection P c t [] buf off = Inr (buf, off)"
| "encode_collection P c t (x # xs) buf off =
     (case encode P c t x buf off of
        Inl e \<Rightarrow> Inl e
      | Inr (buf1, off1) \<Rightarrow> encode_collection P c t xs buf1 off1)"
  by pat_completeness auto


text \<open>
  Termination: every recursive call is on a schema inside the one at hand; enumerating
  the properties of a struct permutes them, and a variant found by name is one of the
  enum's.
\<close>

lemma size_list_insort_key: "size_list f (insort_key k x xs) = Suc (f x + size_list f xs)"
  by (induction xs) auto

lemma size_list_sort_key: "size_list f (sort_key k xs) = size_list f xs"
  by (induction xs) (auto simp: size_list_insort_key)

lemma size_list_partition:
  "size_list f (filter Q xs) + size_list f (filter (\<lambda>x. \<not> Q x) xs) = size_list f xs"
  by (induction xs) auto

lemma size_list_own_keys: "size_list f (own_keys fs) = size_list f fs"
  by (simp add: own_keys_def size_list_sort_key size_list_partition)

lemma size_lookup_variant:
  "lookup_variant vs name = Some (d, t) \<Longrightarrow>
   size t < Suc (size_list (size_prod (\<lambda>x. 0) (size_prod (\<lambda>x. 0) size)) vs)"
  by (induction vs) (auto split: if_splits)

termination encode
  apply (relation "measures [
     (\<lambda>x. case x of
        Inl (Inl (P, c, t, v, b, off)) \<Rightarrow> 2 * size t
      | Inl (Inr (P, c, ts, i, v, b, off)) \<Rightarrow> 2 * size_list size ts + 1
      | Inr (Inl (P, c, t, k, i, v, b, off)) \<Rightarrow> 2 * size t + 1
      | Inr (Inr (Inl (P, c, fs, v, b, off))) \<Rightarrow> 2 * size_list (size_prod (\<lambda>x. 0) size) fs + 1
      | Inr (Inr (Inr (P, c, t, xs, b, off))) \<Rightarrow> 2 * size t + 1),
     (\<lambda>x. case x of
        Inl (Inl (P, c, t, v, b, off)) \<Rightarrow> 0
      | Inl (Inr (P, c, ts, i, v, b, off)) \<Rightarrow> 0
      | Inr (Inl (P, c, t, k, i, v, b, off)) \<Rightarrow> k
      | Inr (Inr (Inl (P, c, fs, v, b, off))) \<Rightarrow> 0
      | Inr (Inr (Inr (P, c, t, xs, b, off))) \<Rightarrow> length xs)]")
                      apply (simp_all add: size_list_own_keys)
  apply (auto dest!: size_lookup_variant)
  done

section \<open>The decoder\<close>

text \<open>
  \<^verbatim>\<open>decodedObject[field] = fieldValue\<close> creates the own property \<open>field\<close>, except for the
  name \<^verbatim>\<open>__proto__\<close>: that assignment runs the setter inherited from
  \<^verbatim>\<open>Object.prototype\<close>, which creates no own property; it ignores a primitive value and
  makes an object the prototype of \<^verbatim>\<open>decodedObject\<close>. A \<open>VObject\<close> lists own
  properties only, so a decoded object with a prototype of its own is outside the model.
\<close>

fun is_object :: "Value \<Rightarrow> bool" where
  "is_object (VObject kvs) = True"
| "is_object (VArray vs) = True"
| "is_object (EnumVariantValue k v) = True"
| "is_object v = False"

text \<open>
  The reverse index of an enum, built by the loop of \<^verbatim>\<open>indexed\<close>: each variant, in
  enumeration order, is stored under its discriminant, a later one replacing an earlier
  one with the same discriminant.
\<close>

definition indexed :: "(string \<times> nat \<times> Type) list \<Rightarrow> nat \<Rightarrow> (Type \<times> string) option" where
  "indexed e =
     foldl (\<lambda>indexedDefinition (variant, variantIndex, variantType).
              indexedDefinition(variantIndex \<mapsto> (variantType, variant)))
       Map.empty (own_keys e)"

text \<open>
  \<open>decode P config type buffer offset\<close> is the value and the returned offset, or the
  exception. Three places of the source are modelled as written:
  \<^item> \<^verbatim>\<open>case "unit"\<close> has no \<^verbatim>\<open>break\<close>: control runs on into \<^verbatim>\<open>case "u8"\<close>;
  \<^item> \<^verbatim>\<open>case "collection"\<close> reads its count with \<^verbatim>\<open>getBigUint64(0, ...)\<close> and has no
    \<^verbatim>\<open>break\<close>: after its loop control runs on into \<^verbatim>\<open>case "tuple"\<close>, where the schema
    object (no \<^verbatim>\<open>length\<close>, not iterable) reaches \<^verbatim>\<open>for (... of tupleDefinition)\<close>, a
    \<open>TypeError\<close>. A count above \<open>2^53\<close> is outside the model: the loop counter, a
    double, stops growing there;
  \<^item> \<^verbatim>\<open>case "enum"\<close> reads the discriminant with \<^verbatim>\<open>getUint32(offset)\<close>, whose omitted
    second argument means big-endian.
  \<^verbatim>\<open>"f128"\<close> has no case: the initial \<^verbatim>\<open>{}\<close> is returned at the same offset.
\<close>

function (sequential)
  decode :: "platform \<Rightarrow> BincodeConfig \<Rightarrow> Type \<Rightarrow> buffer \<Rightarrow> nat \<Rightarrow> error + Value \<times> nat"
  and decode_tuple ::
    "platform \<Rightarrow> BincodeConfig \<Rightarrow> Type list \<Rightarrow> buffer \<Rightarrow> nat \<Rightarrow> error + Value list \<times> nat"
  and decode_array ::
    "platform \<Rightarrow> BincodeConfig \<Rightarrow> Type \<Rightarrow> nat \<Rightarrow> buffer \<Rightarrow> nat \<Rightarrow> error + Value list \<times> nat"
  and decode_struct ::
    "platform \<Rightarrow> BincodeConfig \<Rightarrow> (string \<times> Type) list \<Rightarrow> buffer \<Rightarrow> nat
       \<Rightarrow> error + (string \<times> Value) list \<times> nat"
  and decode_collection ::
    "platform \<Rightarrow> BincodeConfig \<Rightarrow> Type \<Rightarrow> nat \<Rightarrow> buffer \<Rightarrow> nat \<Rightarrow> error + Value list \<times> nat"
where
  "decode P c Unit buf off =
     (case getUint (endian c = little) 1 buf off of
        Inl e \<Rightarrow> Inl e | Inr (x, off1) \<Rightarrow> Inr (VNumber x, off1))"
| "decode P c u8 buf off =
     (case getUint (endian c = little) 1 buf off of
        Inl e \<Rightarrow> Inl e | Inr (x, off1) \<Rightarrow> Inr (VNumber x, off1))"
| "decode P c u16 buf off =
     (case getUint (endian c = little) 2 buf off of
        Inl e \<Rightarrow> Inl e | Inr (x, off1) \<Rightarrow> Inr (VNumber x, off1))"
| "decode P c u32 buf off =
     (case getUint (endian c = little) 4 buf off of
        Inl e \<Rightarrow> Inl e | Inr (x, off1) \<Rightarrow> Inr (VNumber x, off1))"
| "decode P c u64 buf off =
     (case getUint (endian c = little) 8 buf off of
        Inl e \<Rightarrow> Inl e | Inr (x, off1) \<Rightarrow> Inr (VBigInt x, off1))"
| "decode P c u128 buf off = Inl (Thrown ''not supported yet'')"
| "decode P c i8 buf off =
     (case getInt (endian c = little) 1 buf off of
        Inl e \<Rightarrow> Inl e | Inr (x, off1) \<Rightarrow> Inr (VNumber x, off1))"
| "decode P c i16 buf off =
     (case getInt (endian c = little) 2 buf off of
        Inl e \<Rightarrow> Inl e | Inr (x, off1) \<Rightarrow> Inr (VNumber x, off1))"
| "decode P c i32 buf off =
     (case getInt (endian c = little) 4 buf off of
        Inl e \<Rightarrow> Inl e | Inr (x, off1) \<Rightarrow> Inr (VNumber x, off1))"
| "decode P c i64 buf off =
     (case getInt (endian c = little) 8 buf off of
        Inl e \<Rightarrow> Inl e | Inr (x, off1) \<Rightarrow> Inr (VBigInt x, off1))"
| "decode P c i128 buf off = Inl (Thrown ''not supported yet'')"
| "decode P c f16 buf off = Inl (Thrown ''not supported yet'')"
| "decode P c f32 buf off =
     (case getUint (endian c = little) 4 buf off of
        Inl e \<Rightarrow> Inl e | Inr (x, off1) \<Rightarrow> Inr (float32_value P (word_of_int x), off1))"
| "decode P c f64 buf off =
     (case getUint (endian c = little) 8 buf off of
        Inl e \<Rightarrow> Inl e | Inr (x, off1) \<Rightarrow> Inr (float64_value P (word_of_int x), off1))"
| "decode P c f128 buf off = Inr (VObject [], off)"
| "decode P c bool buf off =
     (case getUint (endian c = little) 1 buf off of
        Inl e \<Rightarrow> Inl e | Inr (x, off1) \<Rightarrow> Inr (VBoolean (x = 0), off1))"
| "decode P c String buf off =
     (case getUint (endian c = little) 8 buf off of
        Inl e \<Rightarrow> Inl e
      | Inr (byteLength, off1) \<Rightarrow>
          (case get_bytes buf 8 (nat byteLength) of
             Inl e \<Rightarrow> Inl e
           | Inr bs \<Rightarrow> Inr (VString (text_decode P bs), off1 + nat byteLength)))"
| "decode P c (Collection t) buf off =
     (case getUint (endian c = little) 8 buf 0 of
        Inl e \<Rightarrow> Inl e
      | Inr (byteLength, off0) \<Rightarrow>
          (case decode_collection P c t (nat byteLength) buf (off + 8) of
             Inl e \<Rightarrow> Inl e
           | Inr (collection, off1) \<Rightarrow>
               Inl (if byteLength \<le> 2 ^ 53 then TypeError else NotModelled)))"
| "decode P c (Tuple [t]) buf off = decode P c t buf off"
| "decode P c (Tuple ts) buf off =
     (case decode_tuple P c ts buf off of
        Inl e \<Rightarrow> Inl e | Inr (tupleValue, off1) \<Rightarrow> Inr (VArray tupleValue, off1))"
| "decode P c (Array t n) buf off =
     (case decode_array P c t n buf off of
        Inl e \<Rightarrow> Inl e | Inr (tupleValue, off1) \<Rightarrow> Inr (VArray tupleValue, off1))"
| "decode P c (Struct fs) buf off =
     (case decode_struct P c (own_keys fs) buf off of
        Inl e \<Rightarrow> Inl e | Inr (decodedObject, off1) \<Rightarrow> Inr (VObject decodedObject, off1))"
| "decode P c (Enum vs) buf off =
     (case getUint False 4 buf off of
        Inl e \<Rightarrow> Inl e
      | Inr (variantIndex, off1) \<Rightarrow>
          (case indexed vs (nat variantIndex) of
             None \<Rightarrow> Inl TypeError
           | Some (variantType, name) \<Rightarrow>
               (case decode P c variantType buf off1 of
                  Inl e \<Rightarrow> Inl e
                | Inr (variantValue, off2) \<Rightarrow> Inr (EnumVariantValue name variantValue, off2))))"
| "decode_tuple P c [] buf off = Inr ([], off)"
| "decode_tuple P c (t # ts) buf off =
     (case decode P c t buf off of
        Inl e \<Rightarrow> Inl e
      | Inr (element, off1) \<Rightarrow>
          (case decode_tuple P c ts buf off1 of
             Inl e \<Rightarrow> Inl e | Inr (rest, off2) \<Rightarrow> Inr (element # rest, off2)))"
| "decode_array P c t 0 buf off = Inr ([], off)"
| "decode_array P c t (Suc k) buf off =
     (case decode P c t buf off of
        Inl e \<Rightarrow> Inl e
      | Inr (element, off1) \<Rightarrow>
          (case decode_array P c t k buf off1 of
             Inl e \<Rightarrow> Inl e | Inr (rest, off2) \<Rightarrow> Inr (element # rest, off2)))"
| "decode_struct P c [] buf off = Inr ([], off)"
| "decode_struct P c ((field, t) # fs) buf off =
     (case decode P c t buf off of
        Inl e \<Rightarrow> Inl e
      | Inr (fieldValue, off1) \<Rightarrow>
          (case decode_struct P c fs buf off1 of
             Inl e \<Rightarrow> Inl e
           | Inr (rest, off2) \<Rightarrow>
               (if field = ''__proto__''
                then (if is_object fieldValue then Inl NotModelled else Inr (rest, off2))
                else Inr ((field, fieldValue) # rest, off2))))"
| "decode_collection P c t 0 buf off = Inr ([], off)"
| "decode_collection P c t (Suc k) buf off =
     (case decode P c t buf off of
        Inl e \<Rightarrow> Inl e
      | Inr (element, off1) \<Rightarrow>
          (case decode_collection P c t k buf off1 of
             Inl e \<Rightarrow> Inl e | Inr (rest, off2) \<Rightarrow> Inr (element # rest, off2)))"
  by pat_completeness auto

lemma foldl_indexed_cases:
  "foldl (\<lambda>m (variant, variantIndex, variantType). m(variantIndex \<mapsto> (variantType, variant)))
     m0 xs i = Some (t, name) \<Longrightarrow>
   m0 i = Some (t, name) \<or> (\<exists>d. (name, d, t) \<in> set xs)"
  by (induction xs arbitrary: m0) (fastforce split: if_splits)+

lemma set_own_keys: "set (own_keys fs) = set fs"
  by (auto simp: own_keys_def)

lemma size_variant_member:
  "(name, d, t) \<in> set vs \<Longrightarrow>
   size t < Suc (size_list (size_prod (\<lambda>x. 0) (size_prod (\<lambda>x. 0) size)) vs)"
  by (induction vs) auto

lemma size_indexed:
  "indexed vs i = Some (t, name) \<Longrightarrow>
   size t < Suc (size_list (size_prod (\<lambda>x. 0) (size_prod (\<lambda>x. 0) size)) vs)"
  unfolding indexed_def
  by (auto dest!: foldl_indexed_cases simp: set_own_keys dest: size_variant_member)

termination decode
  apply (relation "measures [
     (\<lambda>x. case x of
        Inl (Inl (P, c, t, b, off)) \<Rightarrow> 2 * size t
      | Inl (Inr (P, c, ts, b, off)) \<Rightarrow> 2 * size_list size ts + 1
      | Inr (Inl (P, c, t, k, b, off)) \<Rightarrow> 2 * size t + 1
      | Inr (Inr (Inl (P, c, fs, b, off))) \<Rightarrow> 2 * size_list (size_prod (\<lambda>x. 0) size) fs + 1
      | Inr (Inr (Inr (P, c, t, k, b, off))) \<Rightarrow> 2 * size t + 1),
     (\<lambda>x. case x of
        Inl (Inl (P, c, t, b, off)) \<Rightarrow> 0
      | Inl (Inr (P, c, ts, b, off)) \<Rightarrow> 0
      | Inr (Inl (P, c, t, k, b, off)) \<Rightarrow> k
      | Inr (Inr (Inl (P, c, fs, b, off))) \<Rightarrow> 0
      | Inr (Inr (Inr (P, c, t, k, b, off))) \<Rightarrow> k)]")
                      apply (simp_all add: size_list_own_keys)
  apply (auto dest!: size_indexed)
  done


section \<open>Concrete inputs\<close>

text \<open>
  A host for the examples: on ASCII text \<^verbatim>\<open>TextEncoder\<close> writes one byte per character
  and \<^verbatim>\<open>TextDecoder\<close> reads it back. The examples hold no floating-point number; this
  host gives none a bit pattern, and reads every bit pattern as \<^verbatim>\<open>NaN\<close>.
\<close>

definition ascii :: platform where
  "ascii =
     \<lparr>text_encode = map (\<lambda>ch. of_nat (of_char ch)),
      text_decode = map (\<lambda>b. char_of (unat b)),
      float32_bits = (\<lambda>v. Inl NotModelled),
      float64_bits = (\<lambda>v. Inl NotModelled),
      float32_value = (\<lambda>w. VFloat 0x7FF8000000000000),
      float64_value = (\<lambda>w. VFloat 0x7FF8000000000000)\<rparr>"

text \<open>
  The region an encoder call may write: from \<open>off\<close> up to the returned offset. The
  buffer keeps its length, and what lies before \<open>off\<close> and from \<open>off'\<close> on is as before.
\<close>

definition frame :: "buffer \<Rightarrow> nat \<Rightarrow> buffer \<Rightarrow> nat \<Rightarrow> bool" where
  "frame buf off buf' off' =
     (length buf' = length buf \<and> off \<le> off' \<and> take off buf' = take off buf
      \<and> drop off' buf' = drop off' buf)"

subsection \<open>Unfolding loops and byte lists at numerals\<close>

lemma le_bytes_numeral [simp]:
  "le_bytes (numeral k) x = of_nat (x mod 256) # le_bytes (pred_numeral k) (x div 256)"
proof -
  have eq: "numeral k = Suc (pred_numeral k)"
    by (rule numeral_eq_Suc)
  show ?thesis
    by (subst eq) (rule le_bytes.simps(2))
qed

lemma encode_array_numeral [simp]:
  "encode_array P c t (numeral k) i v buf off =
     (case index_value v i of
        Inl e \<Rightarrow> Inl e
      | Inr x \<Rightarrow>
          (case encode P c t x buf off of
             Inl e \<Rightarrow> Inl e
           | Inr (buf1, off1) \<Rightarrow> encode_array P c t (pred_numeral k) (Suc i) v buf1 off1))"
  by (simp add: numeral_eq_Suc)

lemma decode_collection_numeral [simp]:
  "decode_collection P c t (numeral k) buf off =
     (case decode P c t buf off of
        Inl e \<Rightarrow> Inl e
      | Inr (element, off1) \<Rightarrow>
          (case decode_collection P c t (pred_numeral k) buf off1 of
             Inl e \<Rightarrow> Inl e | Inr (rest, off2) \<Rightarrow> Inr (element # rest, off2)))"
  by (simp add: numeral_eq_Suc)

lemmas codec_defs = STANDARD_def setInteger_def setBigInteger_def store_def set_bytes_def
  byte_order_def getUint_def getInt_def get_bytes_def

lemmas key_defs = indexed_def own_keys_def is_array_index_def is_digit_def decimal_def

section \<open>The frame of the encoder\<close>

lemma frame_refl: "frame buf off buf off"
  by (simp add: frame_def)

lemma frame_trans:
  assumes "frame b0 o0 b1 o1" and "frame b1 o1 b2 o2"
  shows "frame b0 o0 b2 o2"
proof -
  from assms have le1: "o0 \<le> o1" and le2: "o1 \<le> o2"
    and t1: "take o0 b1 = take o0 b0" and t2: "take o1 b2 = take o1 b1"
    and d1: "drop o1 b1 = drop o1 b0" and d2: "drop o2 b2 = drop o2 b1"
    and len: "length b2 = length b0"
    by (simp_all add: frame_def)
  have "take o0 b2 = take o0 (take o1 b2)"
    using le1 by (simp add: min_absorb1)
  also have "\<dots> = take o0 (take o1 b1)"
    by (simp only: t2)
  also have "\<dots> = take o0 b1"
    using le1 by (simp add: min_absorb1)
  finally have t: "take o0 b2 = take o0 b0"
    by (simp only: t1)
  have "drop o2 b1 = drop (o2 - o1) (drop o1 b1)"
    using le2 by simp
  also have "\<dots> = drop (o2 - o1) (drop o1 b0)"
    by (simp only: d1)
  also have "\<dots> = drop o2 b0"
    using le2 by simp
  finally have d: "drop o2 b2 = drop o2 b0"
    by (simp only: d2)
  show ?thesis
    using le1 le2 t d len by (simp add: frame_def)
qed

lemma frame_nth:
  assumes "frame buf off buf' off'" and "i < length buf" and "i < off \<or> off' \<le> i"
  shows "buf' ! i = buf ! i"
proof (cases "i < off")
  case True
  have "buf' ! i = take off buf' ! i"
    using True by simp
  also have "\<dots> = take off buf ! i"
    using assms(1) by (simp only: frame_def)
  also have "\<dots> = buf ! i"
    using True by simp
  finally show ?thesis .
next
  case False
  with assms(3) have ge: "off' \<le> i"
    by simp
  have len: "length buf' = length buf"
    using assms(1) by (simp add: frame_def)
  have "buf' ! i = drop off' buf' ! (i - off')"
    using ge assms(2) len by simp
  also have "\<dots> = drop off' buf ! (i - off')"
    using assms(1) by (simp only: frame_def)
  also have "\<dots> = buf ! i"
    using ge assms(2) by simp
  finally show ?thesis .
qed

lemma length_le_bytes [simp]: "length (le_bytes n x) = n"
  by (induction n x rule: le_bytes.induct) auto

lemma length_byte_order [simp]: "length (byte_order le bs) = length bs"
  by (simp add: byte_order_def)

lemma set_bytes_frame:
  "set_bytes buf off bs = Inr buf' \<Longrightarrow> frame buf off buf' (off + length bs)"
  by (auto simp: set_bytes_def frame_def split: if_splits)

lemma store_frame:
  "store le n x buf off = Inr (buf', off') \<Longrightarrow> frame buf off buf' off'"
  by (auto simp: store_def split: sum.splits dest!: set_bytes_frame)

lemma setInteger_frame:
  "setInteger le n v buf off = Inr (buf', off') \<Longrightarrow> frame buf off buf' off'"
  by (auto simp: setInteger_def split: sum.splits dest: store_frame)

lemma setBigInteger_frame:
  "setBigInteger le v buf off = Inr (buf', off') \<Longrightarrow> frame buf off buf' off'"
  by (auto simp: setBigInteger_def split: sum.splits dest: store_frame)

lemma setFloat32_frame:
  "setFloat32 P le v buf off = Inr (buf', off') \<Longrightarrow> frame buf off buf' off'"
  by (auto simp: setFloat32_def split: sum.splits dest: store_frame)

lemma setFloat64_frame:
  "setFloat64 P le v buf off = Inr (buf', off') \<Longrightarrow> frame buf off buf' off'"
  by (auto simp: setFloat64_def split: sum.splits dest: store_frame)

text \<open>By induction along the calls of the encoder: every loop chains the frames of its steps.\<close>

lemma encode_frame_all:
  shows "encode P c t v buf off = Inr (buf', off') \<Longrightarrow> frame buf off buf' off'"
    and "encode_tuple P c ts i v buf off = Inr (buf', off') \<Longrightarrow> frame buf off buf' off'"
    and "encode_array P c t k i v buf off = Inr (buf', off') \<Longrightarrow> frame buf off buf' off'"
    and "encode_struct P c fs v buf off = Inr (buf', off') \<Longrightarrow> frame buf off buf' off'"
    and "encode_collection P c t xs buf off = Inr (buf', off') \<Longrightarrow> frame buf off buf' off'"
  apply (induction P c t v buf off and P c ts i v buf off and P c t k i v buf off
    and P c fs v buf off and P c t xs buf off
    arbitrary: buf' off' and buf' off' and buf' off' and buf' off' and buf' off'
    rule: encode_encode_tuple_encode_array_encode_struct_encode_collection.induct)
  apply (auto simp: frame_refl split: sum.splits prod.splits option.splits
      dest: setInteger_frame setBigInteger_frame setFloat32_frame setFloat64_frame
        store_frame set_bytes_frame
      intro: frame_trans)
  apply (blast intro: frame_trans)+
  done

section \<open>Struct fields and array entries\<close>

lemma own_keys_no_index:
  "list_all (\<lambda>f. \<not> is_array_index (fst f)) fs \<Longrightarrow> own_keys fs = fs"
  by (simp add: own_keys_def list_all_iff)

lemma own_keys_indices:
  "filter (\<lambda>f. is_array_index (fst f)) (own_keys fs)
     = sort_key (\<lambda>f. decimal (fst f)) (filter (\<lambda>f. is_array_index (fst f)) fs)"
  by (simp add: own_keys_def filter_sort)

lemma decode_struct_keys:
  "decode_struct P c fs buf off = Inr (kvs, off') \<Longrightarrow>
   map fst kvs = filter (\<lambda>k. k \<noteq> ''__proto__'') (map fst fs)"
  by (induction fs arbitrary: buf off kvs off')
     (auto split: sum.splits prod.splits if_splits)

lemma byte_of_int: "(of_nat (nat (x mod 256)) :: byte) = of_int x"
proof -
  have "(of_nat (nat (x mod 256)) :: byte) = of_int (x mod 256)"
    by simp
  also have "\<dots> = of_int x"
    by (simp add: word_of_int_eq_iff take_bit_eq_mod)
  finally show ?thesis .
qed

lemma store_byte:
  "off < length buf \<Longrightarrow>
   store le (Suc 0) x buf off = Inr (take off buf @ of_int x # drop (Suc off) buf, Suc off)"
  by (simp add: store_def set_bytes_def byte_order_def byte_of_int)

lemma index_value_numbers:
  "index_value (VArray (map VNumber ns)) j
     = Inr (if j < length ns then VNumber (ns ! j) else VUndefined)"
  by simp

text \<open>
  The struct loop over byte fields, for a value object that has a number \<open>g k\<close> under
  every field name \<open>k\<close>: the bytes go out in the order of the list the loop runs over. The
  decoding loop reads one byte per field in that order, and a field named
  \<^verbatim>\<open>__proto__\<close> leaves no key.
\<close>

lemma length_own_keys [simp]: "length (own_keys fs) = length fs"
  by (simp add: own_keys_def sum_length_filter_compl)

lemma map_of_field_values:
  "k \<in> fst ` set fs \<Longrightarrow>
   map_of (map (\<lambda>f. (fst f, VNumber (g (fst f)))) fs) k = Some (VNumber (g k))"
  by (induction fs) auto

lemma encode_struct_u8:
  "list_all (\<lambda>f. snd f = u8) fs' \<Longrightarrow> fst ` set fs' \<subseteq> fst ` set fs \<Longrightarrow>
   off + length fs' \<le> length buf \<Longrightarrow>
   encode_struct P c fs' (VObject (map (\<lambda>f. (fst f, VNumber (g (fst f)))) fs)) buf off
     = Inr (take off buf @ map (\<lambda>f. of_int (g (fst f))) fs' @ drop (off + length fs') buf,
            off + length fs')"
proof (induction fs' arbitrary: buf off)
  case Nil
  then show ?case by simp
next
  case (Cons f fs')
  obtain k t where f: "f = (k, t)"
    by (cases f)
  let ?v = "VObject (map (\<lambda>f. (fst f, VNumber (g (fst f)))) fs)"
  let ?b = "of_int (g k) :: byte"
  let ?buf1 = "take off buf @ ?b # drop (Suc off) buf"
  from Cons.prems f have t: "t = u8" and k: "k \<in> fst ` set fs"
    and all: "list_all (\<lambda>f. snd f = u8) fs'" and sub: "fst ` set fs' \<subseteq> fst ` set fs"
    and room: "off < length buf"
    by auto
  have pv: "property_value ?v k = Inr (VNumber (g k))"
    by (simp add: map_of_field_values [OF k])
  have step: "encode P c u8 (VNumber (g k)) buf off = Inr (?buf1, Suc off)"
    using room by (simp add: setInteger_def store_byte)
  have len: "Suc off + length fs' \<le> length ?buf1"
    using Cons.prems by simp
  have tk: "take (Suc off) ?buf1 = take off buf @ [?b]"
    using room by simp
  have dr: "drop (Suc off + length fs') ?buf1 = drop (off + length (f # fs')) buf"
    using Cons.prems by (simp add: add.commute)
  have "encode_struct P c (f # fs') ?v buf off = encode_struct P c fs' ?v ?buf1 (Suc off)"
    unfolding f t by (simp only: encode_struct.simps pv step sum.case prod.case)
  also have "\<dots> = Inr (take (Suc off) ?buf1 @ map (\<lambda>f. of_int (g (fst f))) fs'
      @ drop (Suc off + length fs') ?buf1, Suc off + length fs')"
    by (rule Cons.IH [OF all sub len])
  also have "\<dots> = Inr (take off buf @ map (\<lambda>f. of_int (g (fst f))) (f # fs')
      @ drop (off + length (f # fs')) buf, off + length (f # fs'))"
    by (simp only: tk dr) (simp add: f)
  finally show ?case .
qed

lemma decode_struct_u8:
  "list_all (\<lambda>f. snd f = u8) fs \<Longrightarrow> length bs = length fs \<Longrightarrow>
   decode_struct P c fs (pre @ bs @ post) (length pre)
     = Inr (filter (\<lambda>kv. fst kv \<noteq> ''__proto__'')
              (zip (map fst fs) (map (\<lambda>b. VNumber (uint b)) bs)),
            length pre + length fs)"
proof (induction fs arbitrary: pre bs)
  case Nil
  then show ?case by simp
next
  case (Cons f fs)
  obtain k t where f: "f = (k, t)"
    by (cases f)
  from Cons.prems obtain b bs' where bs: "bs = b # bs'" and len: "length bs' = length fs"
    by (cases bs) auto
  from Cons.prems f have t: "t = u8" and all: "list_all (\<lambda>f. snd f = u8) fs"
    by auto
  have step: "decode P c u8 (pre @ b # bs' @ post) (length pre)
      = Inr (VNumber (uint b), Suc (length pre))"
    by (simp add: getUint_def get_bytes_def byte_order_def)
  have rest: "decode_struct P c fs (pre @ b # bs' @ post) (Suc (length pre))
      = Inr (filter (\<lambda>kv. fst kv \<noteq> ''__proto__'')
               (zip (map fst fs) (map (\<lambda>b. VNumber (uint b)) bs')),
             Suc (length pre) + length fs)"
    using Cons.IH [OF all len, of "pre @ [b]" ] by simp
  show ?case
    unfolding f t bs by (simp add: step rest del: decode.simps)
qed

text \<open>
  A field inside the loop: it is encoded at the offset the fields before it have reached,
  and what it wrote is still there when the loop ends.
\<close>

lemma encode_struct_append:
  "encode_struct P c (xs @ ys) v buf off
     = (case encode_struct P c xs v buf off of
          Inl e \<Rightarrow> Inl e | Inr (b, off1) \<Rightarrow> encode_struct P c ys v b off1)"
  by (induction xs arbitrary: buf off)
     (auto split: sum.splits prod.splits)

lemma encode_struct_field:
  assumes "encode_struct P c (pre @ (k, t) # post) v buf off = Inr (buf', off')"
  shows "\<exists>b0 o0 x b1 o1.
      encode_struct P c pre v buf off = Inr (b0, o0) \<and> property_value v k = Inr x
      \<and> encode P c t x b0 o0 = Inr (b1, o1) \<and> off \<le> o0 \<and> o0 \<le> o1 \<and> o1 \<le> off'
      \<and> take o1 buf' = take o1 b1"
proof -
  from assms obtain b0 o0 where p: "encode_struct P c pre v buf off = Inr (b0, o0)"
    and r: "encode_struct P c ((k, t) # post) v b0 o0 = Inr (buf', off')"
    by (auto simp: encode_struct_append split: sum.splits prod.splits)
  from r obtain x b1 o1 where x: "property_value v k = Inr x"
    and e: "encode P c t x b0 o0 = Inr (b1, o1)"
    and q: "encode_struct P c post v b1 o1 = Inr (buf', off')"
    by (auto split: sum.splits prod.splits)
  have "frame buf off b0 o0"
    using p by (rule encode_frame_all)
  moreover have "frame b0 o0 b1 o1"
    using e by (rule encode_frame_all)
  moreover have "frame b1 o1 buf' off'"
    using q by (rule encode_frame_all)
  ultimately have "off \<le> o0" "o0 \<le> o1" "o1 \<le> off'" "take o1 buf' = take o1 b1"
    by (simp_all add: frame_def)
  with p x e show ?thesis
    by blast
qed

text \<open>
  The array loop over byte entries: entry \<open>j\<close> of the value where it has one,
  \<^verbatim>\<open>undefined\<close> (stored as 0) where it has none.
\<close>

lemma encode_array_u8:
  "off + k \<le> length buf \<Longrightarrow>
   encode_array P c u8 k i (VArray (map VNumber ns)) buf off
     = Inr (take off buf @ map (\<lambda>j. if j < length ns then of_int (ns ! j) else 0) [i..<i + k]
            @ drop (off + k) buf, off + k)"
proof (induction k arbitrary: i buf off)
  case 0
  then show ?case by simp
next
  case (Suc k)
  let ?b = "(if i < length ns then of_int (ns ! i) else 0) :: byte"
  let ?buf1 = "take off buf @ ?b # drop (Suc off) buf"
  let ?f = "\<lambda>j. (if j < length ns then of_int (ns ! j) else 0) :: byte"
  have step: "encode P c u8 (if i < length ns then VNumber (ns ! i) else VUndefined) buf off
      = Inr (?buf1, Suc off)"
    using Suc.prems by (simp add: setInteger_def store_byte)
  have len: "Suc off + k \<le> length ?buf1"
    using Suc.prems by simp
  have t: "take (Suc off) ?buf1 = take off buf @ [?b]"
    using Suc.prems by simp
  have d: "drop (Suc off + k) ?buf1 = drop (off + Suc k) buf"
    using Suc.prems by (simp add: add.commute)
  have u: "[i..<i + Suc k] = i # [Suc i..<Suc i + k]"
    by (simp add: upt_conv_Cons)
  have "encode_array P c u8 (Suc k) i (VArray (map VNumber ns)) buf off
      = encode_array P c u8 k (Suc i) (VArray (map VNumber ns)) ?buf1 (Suc off)"
    by (simp only: encode_array.simps index_value_numbers step sum.case prod.case)
  also have "\<dots> = Inr (take (Suc off) ?buf1 @ map ?f [Suc i..<Suc i + k]
      @ drop (Suc off + k) ?buf1, Suc off + k)"
    by (rule Suc.IH [OF len])
  also have "\<dots> = Inr (take off buf @ map ?f [i..<i + Suc k] @ drop (off + Suc k) buf,
      off + Suc k)"
    by (simp only: t d u) simp
  finally show ?case .
qed

text \<open>The array loop reads the value at the indices \<open>i\<close> to \<open>i + k - 1\<close> only.\<close>

lemma encode_array_cong:
  "(\<And>j. i \<le> j \<Longrightarrow> j < i + k \<Longrightarrow> index_value v j = index_value w j) \<Longrightarrow>
   encode_array P c t k i v buf off = encode_array P c t k i w buf off"
proof (induction k arbitrary: i buf off)
  case 0
  then show ?case by simp
next
  case (Suc k)
  have here: "index_value v i = index_value w i"
    by (rule Suc.prems) simp_all
  have rest: "encode_array P c t k (Suc i) v b1 o1 = encode_array P c t k (Suc i) w b1 o1"
    for b1 o1
    by (rule Suc.IH) (rule Suc.prems, simp_all)
  show ?case
    by (simp add: here rest split: sum.splits prod.splits)
qed

lemma index_value_padded:
  "j < n \<Longrightarrow>
   index_value (VArray (take n xs @ replicate (n - length xs) VUndefined)) j
     = index_value (VArray xs) j"
  by (auto simp: nth_append)


section \<open>The claims\<close>

text \<open>
  C1 (round trip). The claim: decoding what \<open>encode\<close> wrote gives back the value and the
  offset \<open>encode\<close> returned, for every schema. The code at the schema \<open>bool\<close> and the
  value \<^verbatim>\<open>true\<close>: \<open>encode\<close> writes the byte 1, and \<open>decode\<close> of that byte is
  \<^verbatim>\<open>false\<close>, since the decoder tests the byte against 0.
\<close>

theorem roundtrip_bool_fails:
  "encode P STANDARD bool (VBoolean True) [0] 0 = Inr ([1], 1)
   \<and> decode P STANDARD bool [1] 0 = Inr (VBoolean False, 1)"
  by (simp add: codec_defs)

text \<open>
  C2 (bool wire mapping). At any offset inside any buffer, \<open>encode\<close> of a boolean writes
  one byte, 1 for \<^verbatim>\<open>true\<close> and 0 for \<^verbatim>\<open>false\<close>, and advances by 1, as the claim says.
  \<open>decode\<close> advances by 1 too, but its value is \<^verbatim>\<open>true\<close> exactly for the byte 0: the
  byte 1 decodes to \<^verbatim>\<open>false\<close> and the byte 0 to \<^verbatim>\<open>true\<close>, against the claim.
\<close>

theorem bool_wire_mapping:
  "encode P c bool (VBoolean x) (pre @ b # post) (length pre)
     = Inr (pre @ (if x then 1 else 0) # post, Suc (length pre))
   \<and> decode P c bool (pre @ b # post) (length pre) = Inr (VBoolean (b = 0), Suc (length pre))
   \<and> decode P c bool [1] 0 = Inr (VBoolean False, 1)
   \<and> decode P c bool [0] 0 = Inr (VBoolean True, 1)"
  by (simp add: setInteger_def store_def set_bytes_def getUint_def byte_order_def unat_eq_0
        get_bytes_def)

text \<open>
  C3 (collection length). \<open>encode\<close> of an empty collection writes eight zero bytes at the
  offset and nothing else, as the claim says. \<open>decode\<close> of a collection schema never
  returns a value, whatever the buffer, the offset and the element schema: it reads the
  count at the literal offset 0 and, after its loop, runs on into the tuple case, which
  throws. On the eight zero bytes of the empty collection it ends in a \<open>TypeError\<close>; with
  one byte in front and the cursor at 1 it takes the count from bytes 0 to 7.
\<close>

theorem collection_decode_never_returns:
  "encode P c (Collection t) (VArray []) (pre @ [b0, b1, b2, b3, b4, b5, b6, b7] @ post) (length pre)
     = Inr (pre @ [0, 0, 0, 0, 0, 0, 0, 0] @ post, length pre + 8)
   \<and> decode P c (Collection t) buf off \<noteq> Inr r
   \<and> decode P STANDARD (Collection u32) [0, 0, 0, 0, 0, 0, 0, 0] 0 = Inl TypeError
   \<and> decode P STANDARD (Collection u32) [2, 0, 0, 0, 0, 0, 0, 0, 0] 1 = Inl RangeError"
  by (simp add: codec_defs split: sum.splits prod.splits)

text \<open>
  C4 (unit consumes zero bytes). \<open>encode\<close> of the unit schema writes nothing and returns
  the offset, as the claim says. \<open>decode\<close> of the unit schema is \<open>decode\<close> of \<open>u8\<close>: it
  returns the byte at the cursor as a number and advances by 1, and fails on an empty
  buffer, against the claim.
\<close>

theorem unit_decodes_as_u8:
  "encode P c Unit v buf off = Inr (buf, off)
   \<and> decode P c Unit buf off = decode P c u8 buf off
   \<and> decode P c Unit (pre @ b # post) (length pre) = Inr (VNumber (uint b), Suc (length pre))
   \<and> decode P c Unit [] 0 = Inl RangeError"
  by (simp add: getUint_def byte_order_def get_bytes_def)

text \<open>
  C5 (enum discriminant endianness). The schema is \<^verbatim>\<open>Result(u8, u8)\<close>, the value the
  variant \<^verbatim>\<open>Err\<close> with payload 7. Under the standard (little-endian) configuration
  \<open>encode\<close> writes the discriminant 1 as \<open>01 00 00 00\<close>; \<open>decode\<close> reads those bytes
  big-endian, finds no variant 16777216 and ends in a \<open>TypeError\<close>. Under a big-endian
  configuration the same value comes back.
\<close>

theorem enum_discriminant_read_big_endian:
  "encode P STANDARD (Enum [(''Ok'', 0, Tuple [u8]), (''Err'', 1, Tuple [u8])])
       (EnumVariantValue ''Err'' (VNumber 7)) [0, 0, 0, 0, 0] 0 = Inr ([1, 0, 0, 0, 7], 5)
   \<and> decode P STANDARD (Enum [(''Ok'', 0, Tuple [u8]), (''Err'', 1, Tuple [u8])])
         [1, 0, 0, 0, 7] 0 = Inl TypeError
   \<and> encode P (STANDARD\<lparr>endian := big\<rparr>) (Enum [(''Ok'', 0, Tuple [u8]), (''Err'', 1, Tuple [u8])])
       (EnumVariantValue ''Err'' (VNumber 7)) [0, 0, 0, 0, 0] 0 = Inr ([0, 0, 0, 1, 7], 5)
   \<and> decode P (STANDARD\<lparr>endian := big\<rparr>) (Enum [(''Ok'', 0, Tuple [u8]), (''Err'', 1, Tuple [u8])])
         [0, 0, 0, 1, 7] 0 = Inr (EnumVariantValue ''Err'' (VNumber 7), 5)"
  by (simp add: codec_defs key_defs)

text \<open>
  C6 (struct field order), as amended. \<open>encode\<close> writes the field encodings of a struct
  one after the other, each at the offset the one before it returned, in the order in
  which the language enumerates the string keys of the schema object: the field names
  that are array indices first, in ascending numeric order, then the other names in
  declared order. \<open>decode\<close> reads the fields in that same order, and the own keys of the
  object it returns are the field names in that order, without \<^verbatim>\<open>__proto__\<close> (assigning
  to it creates no own key). For a schema none of whose field names is an array index
  the order is the declared order. In the statement: the field \<open>k\<close> that stands after the
  fields \<open>earlier\<close> in the enumeration is encoded by \<open>encode\<close> at the offset \<open>o0\<close> where these
  end, and the bytes up to its end \<open>o1\<close> are in the final buffer; for a struct of byte
  fields the buffer after \<open>encode\<close> and the object after \<open>decode\<close> are given in full.
\<close>

theorem struct_field_order:
  "encode P c (Struct fs) v buf off = encode_struct P c (own_keys fs) v buf off
   \<and> decode P c (Struct fs) buf off
       = (case decode_struct P c (own_keys fs) buf off of
            Inl e \<Rightarrow> Inl e | Inr (kvs, off') \<Rightarrow> Inr (VObject kvs, off'))
   \<and> (decode_struct P c (own_keys fs) buf off = Inr (kvs, off')
        \<longrightarrow> map fst kvs = filter (\<lambda>k. k \<noteq> ''__proto__'') (map fst (own_keys fs)))
   \<and> own_keys fs = filter (\<lambda>f. is_array_index (fst f)) (own_keys fs)
                    @ filter (\<lambda>f. \<not> is_array_index (fst f)) fs
   \<and> sorted (map (\<lambda>f. decimal (fst f)) (filter (\<lambda>f. is_array_index (fst f)) (own_keys fs)))
   \<and> (list_all (\<lambda>f. \<not> is_array_index (fst f)) fs \<longrightarrow> own_keys fs = fs)
   \<and> (encode P c (Struct fs) v buf off = Inr (buf', off')
        \<and> own_keys fs = earlier @ (k, t) # later
        \<longrightarrow> (\<exists>b0 o0 x b1 o1.
              encode_struct P c earlier v buf off = Inr (b0, o0)
              \<and> property_value v k = Inr x
              \<and> encode P c t x b0 o0 = Inr (b1, o1)
              \<and> off \<le> o0 \<and> o0 \<le> o1 \<and> o1 \<le> off'
              \<and> take o1 buf' = take o1 b1))
   \<and> (list_all (\<lambda>f. snd f = u8) fs \<and> off + length fs \<le> length buf
        \<longrightarrow> encode P c (Struct fs) (VObject (map (\<lambda>f. (fst f, VNumber (g (fst f)))) fs)) buf off
              = Inr (take off buf @ map (\<lambda>f. of_int (g (fst f))) (own_keys fs)
                     @ drop (off + length fs) buf, off + length fs))
   \<and> (list_all (\<lambda>f. snd f = u8) fs \<and> length bs = length fs
        \<longrightarrow> decode P c (Struct fs) (pre @ bs @ post) (length pre)
              = Inr (VObject (filter (\<lambda>kv. fst kv \<noteq> ''__proto__'')
                       (zip (map fst (own_keys fs)) (map (\<lambda>b. VNumber (uint b)) bs))),
                     length pre + length fs))"
proof -
  have parts: "own_keys fs = filter (\<lambda>f. is_array_index (fst f)) (own_keys fs)
                    @ filter (\<lambda>f. \<not> is_array_index (fst f)) fs"
    by (simp add: own_keys_indices) (simp add: own_keys_def)
  have asc: "sorted (map (\<lambda>f. decimal (fst f))
      (filter (\<lambda>f. is_array_index (fst f)) (own_keys fs)))"
    by (simp add: own_keys_indices)
  have field: "\<exists>b0 o0 x b1 o1.
      encode_struct P c earlier v buf off = Inr (b0, o0) \<and> property_value v k = Inr x
      \<and> encode P c t x b0 o0 = Inr (b1, o1) \<and> off \<le> o0 \<and> o0 \<le> o1 \<and> o1 \<le> off'
      \<and> take o1 buf' = take o1 b1"
    if "encode P c (Struct fs) v buf off = Inr (buf', off')"
      and "own_keys fs = earlier @ (k, t) # later"
    using that by (intro encode_struct_field [where post = later]) simp
  have bytes: "encode P c (Struct fs) (VObject (map (\<lambda>f. (fst f, VNumber (g (fst f)))) fs)) buf off
      = Inr (take off buf @ map (\<lambda>f. of_int (g (fst f))) (own_keys fs)
             @ drop (off + length fs) buf, off + length fs)"
    if "list_all (\<lambda>f. snd f = u8) fs" and "off + length fs \<le> length buf"
    using that encode_struct_u8 [of "own_keys fs" fs off buf P c g]
    by (simp add: list_all_iff set_own_keys)
  have reads: "decode P c (Struct fs) (pre @ bs @ post) (length pre)
      = Inr (VObject (filter (\<lambda>kv. fst kv \<noteq> ''__proto__'')
               (zip (map fst (own_keys fs)) (map (\<lambda>b. VNumber (uint b)) bs))),
             length pre + length fs)"
    if "list_all (\<lambda>f. snd f = u8) fs" and "length bs = length fs"
    using that decode_struct_u8 [of "own_keys fs" bs P c pre post]
    by (simp add: list_all_iff set_own_keys)
  have keys: "map fst kvs = filter (\<lambda>k. k \<noteq> ''__proto__'') (map fst (own_keys fs))"
    if "decode_struct P c (own_keys fs) buf off = Inr (kvs, off')"
    using that by (rule decode_struct_keys)
  have decl: "own_keys fs = fs" if "list_all (\<lambda>f. \<not> is_array_index (fst f)) fs"
    using that by (rule own_keys_no_index)
  have enc: "encode P c (Struct fs) v buf off = encode_struct P c (own_keys fs) v buf off"
    by simp
  have dec: "decode P c (Struct fs) buf off
       = (case decode_struct P c (own_keys fs) buf off of
            Inl e \<Rightarrow> Inl e | Inr (kvs, off') \<Rightarrow> Inr (VObject kvs, off'))"
    by simp
  from enc dec keys parts asc decl field bytes reads show ?thesis
    by blast
qed

text \<open>
  The struct of the source's own example, where no field name is an array index: the
  fields go out and come back in declared order, \<^verbatim>\<open>world\<close> at offset 10 after
  \<^verbatim>\<open>hello\<close>. And the struct of two byte fields declared \<^verbatim>\<open>"1"\<close> then \<^verbatim>\<open>"0"\<close>: they go
  out and come back in the order \<^verbatim>\<open>"0"\<close>, \<^verbatim>\<open>"1"\<close>.
\<close>

theorem struct_field_order_witness:
  "list_all (\<lambda>f. \<not> is_array_index (fst f)) [(''hello'', String), (''world'', u8)]
   \<and> own_keys [(''hello'', String), (''world'', u8)] = [(''hello'', String)] @ (''world'', u8) # []
   \<and> decode_struct ascii STANDARD (own_keys [(''hello'', String), (''world'', u8)])
        [2, 0, 0, 0, 0, 0, 0, 0, 104, 105, 16] 0
       = Inr ([(''hello'', VString ''hi''), (''world'', VNumber 16)], 11)
   \<and> encode ascii STANDARD (Struct [(''hello'', String), (''world'', u8)])
        (VObject [(''hello'', VString ''hi''), (''world'', VNumber 16)])
        [2, 0, 0, 0, 0, 0, 0, 0, 104, 105, 16] 0
       = Inr ([2, 0, 0, 0, 0, 0, 0, 0, 104, 105, 16], 11)
   \<and> encode ascii STANDARD u8 (VNumber 16) [2, 0, 0, 0, 0, 0, 0, 0, 104, 105, 16] 10
       = Inr ([2, 0, 0, 0, 0, 0, 0, 0, 104, 105, 16], 11)
   \<and> list_all (\<lambda>f. snd f = u8) [(''1'', u8), (''0'', u8)]
   \<and> (0 :: nat) + length [(''1'', u8), (''0'', u8)] \<le> length [0, 0 :: byte]
   \<and> encode ascii STANDARD (Struct [(''1'', u8), (''0'', u8)])
        (VObject [(''1'', VNumber 170), (''0'', VNumber 187)]) [0, 0] 0
       = Inr ([187, 170], 2)
   \<and> decode ascii STANDARD (Struct [(''1'', u8), (''0'', u8)]) [187, 170] 0
       = Inr (VObject [(''0'', VNumber 187), (''1'', VNumber 170)], 2)"
  using struct_field_order [where P = ascii and c = STANDARD
      and fs = "[(''hello'', String), (''world'', u8)]"
      and v = "VObject [(''hello'', VString ''hi''), (''world'', VNumber 16)]"
      and buf = "[2, 0, 0, 0, 0, 0, 0, 0, 104, 105, 16]" and off = 0
      and buf' = "[2, 0, 0, 0, 0, 0, 0, 0, 104, 105, 16]" and off' = 11
      and kvs = "[(''hello'', VString ''hi''), (''world'', VNumber 16)]"
      and earlier = "[(''hello'', String)]" and k = "''world''" and t = u8 and later = "[]"
      and g = "\<lambda>k. 0" and bs = "[]" and pre = "[]" and post = "[]"]
    struct_field_order [where P = ascii and c = STANDARD
      and fs = "[(''1'', u8), (''0'', u8)]"
      and v = "VObject [(''1'', VNumber 170), (''0'', VNumber 187)]"
      and buf = "[0, 0]" and off = 0 and buf' = "[187, 170]" and off' = 2
      and kvs = "[]" and earlier = "[]" and k = "''0''" and t = u8
      and later = "[(''1'', u8)]"
      and g = "\<lambda>k. if k = ''1'' then 170 else 187" and bs = "[187, 170]"
      and pre = "[]" and post = "[]"]
  by (simp add: codec_defs key_defs ascii_def char_of_def bit_Suc_0_iff missing_property_def)

text \<open>
  Against C6 as stated: the struct declared with the fields \<^verbatim>\<open>"1"\<close> then \<^verbatim>\<open>"0"\<close>.
  \<open>encode\<close> writes the field \<^verbatim>\<open>"0"\<close> first; the fields taken in declared order would
  give the bytes the other way round.
\<close>

theorem struct_index_names_reordered:
  "encode ascii STANDARD (Struct [(''1'', u8), (''0'', u8)])
       (VObject [(''1'', VNumber 170), (''0'', VNumber 187)]) [0, 0] 0 = Inr ([187, 170], 2)
   \<and> encode_struct ascii STANDARD [(''1'', u8), (''0'', u8)]
       (VObject [(''1'', VNumber 170), (''0'', VNumber 187)]) [0, 0] 0 = Inr ([170, 187], 2)"
  by (simp add: codec_defs key_defs)

text \<open>
  C7 (array arity), as amended. \<open>encode\<close> of an array schema makes no arity check and has
  no shape error among its outcomes: it encodes the entries of the value at the indices
  below the declared size, an entry the value does not have being \<^verbatim>\<open>undefined\<close> and the
  entries from the declared size on being ignored, so that a value encodes as its first
  \<open>n\<close> entries padded with \<^verbatim>\<open>undefined\<close> do. For \<open>Array(u8, n)\<close> and a list of numbers of
  any length, with room for \<open>n\<close> bytes, the call succeeds: byte \<open>j\<close> is entry \<open>j\<close> modulo
  256, or 0 where the value has no entry \<open>j\<close>, and the returned offset is \<open>off + n\<close>.
\<close>

theorem array_arity_not_checked:
  "encode P c (Array t n) (VArray xs) buf off
     = encode P c (Array t n) (VArray (take n xs @ replicate (n - length xs) VUndefined)) buf off
   \<and> (off + n \<le> length buf \<longrightarrow>
        encode P c (Array u8 n) (VArray (map VNumber ns)) buf off
          = Inr (take off buf @ map (\<lambda>j. if j < length ns then of_int (ns ! j) else 0) [0..<n]
                 @ drop (off + n) buf, off + n))"
proof -
  have "encode_array P c t n 0 (VArray xs) buf off
      = encode_array P c t n 0 (VArray (take n xs @ replicate (n - length xs) VUndefined)) buf off"
    by (rule encode_array_cong) (simp only: add_0 index_value_padded)
  then show ?thesis
    using encode_array_u8 [of off n buf P c 0 ns] by simp
qed

text \<open>The array of three bytes with a value of three entries: the call succeeds.\<close>

theorem array_arity_not_checked_witness:
  "(0 :: nat) + 3 \<le> length [9, 9, 9 :: byte]
   \<and> encode ascii STANDARD (Array u8 3) (VArray (map VNumber [1, 2, 3])) [9, 9, 9] 0
       = Inr ([1, 2, 3], 3)"
  using array_arity_not_checked [where P = ascii and c = STANDARD and n = 3 and off = 0
      and buf = "[9, 9, 9]" and ns = "[1, 2, 3]" and t = u8 and xs = "[]"]
  by (simp add: codec_defs)

text \<open>
  Against C7 as stated: the array of three bytes with a value of two entries. The call
  does not fail: it writes the two entries and a 0 and returns the offset 3.
\<close>

theorem array_short_value_encodes:
  "encode ascii STANDARD (Array u8 3) (VArray [VNumber 1, VNumber 2]) [9, 9, 9] 0
     = Inr ([1, 2, 0], 3)"
  by (simp add: codec_defs)

text \<open>
  C8 (tuple of one). \<open>encode\<close> of a one-element tuple schema is \<open>encode\<close> of its element
  schema with the same value: the same outcome, so the same bytes and the same returned
  offset. \<open>Tuple(u8)\<close> with the value 7 writes the one byte 7, as \<open>u8\<close> with 7 does.
\<close>

theorem tuple_of_one_transparent:
  "encode P c (Tuple [t]) v buf off = encode P c t v buf off
   \<and> encode P c (Tuple [u8]) (VNumber 7) [b] 0 = Inr ([7], 1)
   \<and> encode P c u8 (VNumber 7) [b] 0 = Inr ([7], 1)"
  by (simp add: codec_defs)

text \<open>
  C9 (frame of the encoder). A call of \<open>encode\<close> that returns \<open>off'\<close> leaves the buffer
  with its length, \<open>off \<le> off'\<close>, and every byte before \<open>off\<close> and from \<open>off'\<close> on as it
  was: only the bytes at the positions \<open>off\<close> to \<open>off' - 1\<close> can differ. This holds for
  every schema and configuration and every value on which \<open>encode\<close> returns, whatever
  bytes the host gives a string or a floating-point number.
\<close>

theorem encode_frame:
  assumes "encode P c t v buf off = Inr (buf', off')"
  shows "length buf' = length buf \<and> off \<le> off'
    \<and> take off buf' = take off buf \<and> drop off' buf' = drop off' buf
    \<and> (\<forall>i < length buf. i < off \<or> off' \<le> i \<longrightarrow> buf' ! i = buf ! i)"
proof -
  have fr: "frame buf off buf' off'"
    using assms by (rule encode_frame_all(1))
  then show ?thesis
    by (auto simp: frame_def dest: frame_nth [OF fr])
qed

text \<open>A tuple of a byte and a 16-bit number written at offset 1 of a five-byte buffer.\<close>

theorem encode_frame_witness:
  "encode ascii STANDARD (Tuple [u8, u16]) (VArray [VNumber 7, VNumber 258]) [9, 9, 9, 9, 9] 1
     = Inr ([9, 7, 2, 1, 9], 4)
   \<and> take 1 [9, 7, 2, 1, 9 :: byte] = take 1 [9, 9, 9, 9, 9]
   \<and> drop 4 [9, 7, 2, 1, 9 :: byte] = drop 4 [9, 9, 9, 9, 9]"
proof -
  have h: "encode ascii STANDARD (Tuple [u8, u16]) (VArray [VNumber 7, VNumber 258])
      [9, 9, 9, 9, 9] 1 = Inr ([9, 7, 2, 1, 9], 4)"
    by (simp add: codec_defs)
  from encode_frame [OF h] h show ?thesis
    by simp
qed

text \<open>
  C10 (empty tuple). \<open>encode\<close> of the empty tuple schema writes nothing and returns the
  offset; \<open>decode\<close> of it, at any offset of any buffer, returns the empty sequence and
  the same offset.
\<close>

theorem empty_tuple_zero_bytes:
  "encode P c (Tuple []) v buf off = Inr (buf, off)
   \<and> decode P c (Tuple []) buf off = Inr (VArray [], off)"
  by simp

end
